theory Spec2Isabelle
  imports Main
begin

section \<open>Strings and arrays as the SDK uses them\<close>

text \<open>
  A string is a list of code units; \<^typ>\<open>char\<close> covers the code units 0..255. The white
  space and line terminator code units of ECMAScript in that range are TAB, LF, VT, FF, CR,
  SPACE and NBSP; \<open>String.prototype.trim\<close> strips them from both ends.
\<close>

definition isWhiteSpace :: "char \<Rightarrow> bool" where
  "isWhiteSpace c \<longleftrightarrow> c \<in> {CHR 0x09, CHR 0x0A, CHR 0x0B, CHR 0x0C, CHR 0x0D, CHR 0x20, CHR 0xA0}"

definition trimStart :: "string \<Rightarrow> string" where
  "trimStart s = dropWhile isWhiteSpace s"

definition trim :: "string \<Rightarrow> string" where
  "trim s = rev (trimStart (rev (trimStart s)))"

text \<open>\<open>Array.prototype.join\<close>: the separator goes between consecutive elements only.\<close>

fun join :: "string \<Rightarrow> string list \<Rightarrow> string" where
  "join sep [] = []"
| "join sep [x] = x"
| "join sep (x # y # ys) = x @ sep @ join sep (y # ys)"

datatype error = Error string

section \<open>Shell descriptors\<close>

datatype ShellStatus = RUNNING | FINISHED | ERROR | KILLED | RESTARTING

record ShellDTO =
  shellId :: string
  name :: string
  status :: ShellStatus
  exitCode :: "int option"

text \<open>\<open>OpenShellDTO\<close> is a shell descriptor that always carries the buffered output.\<close>

record OpenShellDTO = ShellDTO +
  buffer :: "string list"

section \<open>ShellInstance\<close>

text \<open>
  The handle keeps the descriptor, the display buffer \<open>output\<close>, the values fired on
  \<open>onShellOutputEmitter\<close> and the number of firings of \<open>onShellUpdatedEmitter\<close>.
  \<open>isDisposed\<close> is the flag of the \<open>Disposable\<close> base class.
\<close>

record ShellInstance =
  shell :: ShellDTO
  "output" :: "string list"
  outputFired :: "string list"
  updatedFired :: nat
  isDisposed :: bool

text \<open>
  The constructor receives \<open>ShellDTO & { buffer?: string[] }\<close>; the field initialiser is
  \<open>this.shell.buffer || []\<close>, and an array (also an empty one) is truthy.
\<close>

definition ShellInstance_new :: "ShellDTO \<Rightarrow> string list option \<Rightarrow> ShellInstance" where
  "ShellInstance_new dto buf =
     \<lparr>shell = dto,
      output = (case buf of None \<Rightarrow> [] | Some b \<Rightarrow> b),
      outputFired = [],
      updatedFired = 0,
      isDisposed = False\<rparr>"

text \<open>The listener on \<open>onShellOut\<close>: fire, push, and one \<open>shift\<close> when longer than 1000.\<close>

definition onShellOut :: "ShellInstance \<Rightarrow> string \<Rightarrow> string \<Rightarrow> ShellInstance" where
  "onShellOut inst sid out =
     (if sid = shellId (shell inst) then
        (let pushed = output inst @ [out]
         in inst\<lparr>outputFired := outputFired inst @ [out],
                 output := (if length pushed > 1000 then tl pushed else pushed)\<rparr>)
      else inst)"

text \<open>
  The listener on \<open>onShellsUpdated\<close>: \<open>shells.find\<close> takes the first descriptor with this
  handle's id and replaces \<open>this.shell\<close>; \<open>this.output\<close> is not touched.
\<close>

definition onShellsUpdated :: "ShellInstance \<Rightarrow> ShellDTO list \<Rightarrow> ShellInstance" where
  "onShellsUpdated inst shells =
     (case find (\<lambda>s. shellId s = shellId (shell inst)) shells of
        None \<Rightarrow> inst
      | Some updatedShell \<Rightarrow> inst\<lparr>shell := updatedShell, updatedFired := Suc (updatedFired inst)\<rparr>)"

datatype shell_notification =
  ShellOutN string string
| ShellsUpdatedN "ShellDTO list"

text \<open>
  Both listeners are owned by the handle (\<open>addDisposable\<close>), so a disposed handle receives
  nothing any more.
\<close>

definition deliver :: "ShellInstance \<Rightarrow> shell_notification \<Rightarrow> ShellInstance" where
  "deliver inst n =
     (if isDisposed inst then inst
      else (case n of
              ShellOutN sid out \<Rightarrow> onShellOut inst sid out
            | ShellsUpdatedN shells \<Rightarrow> onShellsUpdated inst shells))"

definition deliver_all :: "ShellInstance \<Rightarrow> shell_notification list \<Rightarrow> ShellInstance" where
  "deliver_all inst ns = foldl deliver inst ns"

definition getOutput :: "ShellInstance \<Rightarrow> string" where
  "getOutput inst = join [CHR 0x0A] (output inst)"

text \<open>The chunks of a notification sequence that carry the given shell id, in arrival order.\<close>

fun chunks_for :: "string \<Rightarrow> shell_notification list \<Rightarrow> string list" where
  "chunks_for sid [] = []"
| "chunks_for sid (ShellOutN i out # ns) = (if i = sid then out # chunks_for sid ns else chunks_for sid ns)"
| "chunks_for sid (ShellsUpdatedN shells # ns) = chunks_for sid ns"

text \<open>
  Calls made on the remote shell client, in the order they are made.
\<close>

datatype client_call = ShellClose string

text \<open>
  \<open>pitcherClient.clients.shell.close(shellId)\<close>: the call is made (and recorded), and it
  fails or succeeds as the remote side answers; \<open>answer sid = Inl e\<close> when the request
  throws or its promise rejects with \<open>e\<close>.
\<close>

definition shell_close :: "(string \<Rightarrow> error + unit) \<Rightarrow> string \<Rightarrow> client_call list \<Rightarrow> (error + unit) \<times> client_call list" where
  "shell_close answer sid made = (answer sid, made @ [ShellClose sid])"

text \<open>\<open>try { body } catch (e) { handler }\<close> over computations that pass the calls made along.\<close>

definition try_catch :: "('s \<Rightarrow> (error + 'a) \<times> 's) \<Rightarrow> (error \<Rightarrow> 's \<Rightarrow> (error + 'a) \<times> 's) \<Rightarrow> 's \<Rightarrow> (error + 'a) \<times> 's" where
  "try_catch body handler s =
     (case body s of
        (Inl e, s') \<Rightarrow> handler e s'
      | (Inr x, s') \<Rightarrow> (Inr x, s'))"

text \<open>
  The hook given to \<open>onWillDispose\<close>:
  \<^verbatim>\<open>try { await this.pitcherClient.clients.shell.close(this.shell.shellId) } catch (e) { }\<close>.
  The handler is empty: it makes no call and the hook ends normally.
\<close>

definition closeOnDispose :: "(string \<Rightarrow> error + unit) \<Rightarrow> ShellInstance \<Rightarrow> client_call list \<Rightarrow> (error + unit) \<times> client_call list" where
  "closeOnDispose answer inst =
     try_catch (shell_close answer (shellId (shell inst))) (\<lambda>e made. (Inr (), made))"

text \<open>
  Modelled from the spec: the \<open>Disposable\<close> base class (\<open>utils/disposable\<close>) is not among
  the sources. By the spec, \<open>dispose()\<close> on a released node is a no-op; the first
  \<open>dispose()\<close> runs the custom teardown hook, releases the children and marks the node
  released, and a failure of a hook that does not swallow it propagates to the caller.
  The result is the outcome of \<open>dispose()\<close>, the handle, and the calls made on the client.
\<close>

definition ShellInstance_dispose :: "(string \<Rightarrow> error + unit) \<Rightarrow> ShellInstance \<Rightarrow> client_call list \<Rightarrow> (error + unit) \<times> ShellInstance \<times> client_call list" where
  "ShellInstance_dispose answer inst made =
     (if isDisposed inst then (Inr (), inst, made)
      else (case closeOnDispose answer inst made of
              (Inl e, made') \<Rightarrow> (Inl e, inst, made')
            | (Inr u, made') \<Rightarrow> (Inr (), inst\<lparr>isDisposed := True\<rparr>, made')))"

section \<open>runCommandAsUser\<close>

text \<open>The settled value of a command: \<open>{ output: string; exitCode?: number }\<close>.\<close>

datatype CommandResult = CommandResult (res_output: string) (res_exitCode: "int option")

datatype 'a Promise = Pending | Fulfilled 'a | Rejected error

text \<open>
  Modelled from the spec: \<open>Barrier\<close> and \<open>DisposableStore\<close> come from the package
  \<open>@codesandbox/pitcher-common\<close>, which is not among the sources. A barrier is pending,
  opened with a value, or disposed; \<open>open\<close> takes effect on a pending barrier only. A
  store disposes everything it holds on its first \<open>dispose()\<close> and ignores later ones.
  What the store does with an item added after its disposal is not fixed by the spec, so
  it is a parameter: the item is left alone (\<open>Leak\<close>) or disposed at once (\<open>DisposeNow\<close>).
\<close>

datatype 'a Barrier = BarrierPending | BarrierOpened 'a | BarrierDisposed

definition Barrier_open :: "'a \<Rightarrow> 'a Barrier \<Rightarrow> 'a Barrier" where
  "Barrier_open v b = (case b of BarrierPending \<Rightarrow> BarrierOpened v | _ \<Rightarrow> b)"

datatype late_add = Leak | DisposeNow

text \<open>The three listeners the command registers with \<open>pitcher.clients.shell\<close>.\<close>

datatype subscription = OnShellOut | OnShellExited | OnShellTerminated

text \<open>Requests sent to the remote shell client (\<open>pitcher.clients.shell\<close>).\<close>

datatype request = CreateShell string | RenameShell string string | DeleteShell string

text \<open>Where the asynchronous body is suspended.\<close>

datatype phase = AwaitPreCommand | AwaitCreate | AwaitBarrier | Returned

text \<open>
  The arguments of \<open>runCommandAsUser\<close>. \<open>env\<close> lists the entries of the record in the
  order of \<open>Object.entries\<close>; \<open>runPreCommand\<close> tells whether a pre-command was passed.
\<close>

record RunOpts =
  command :: string
  env :: "(string \<times> string) list option"
  shellName :: "string option"
  runPreCommand :: bool

text \<open>
  The closure state of one call: the local variables \<open>shell\<close>, \<open>combinedOut\<close>, \<open>barrier\<close>,
  the store (\<open>storeDisposed\<close>, \<open>stored\<close>), the listeners of this command that are
  registered with the remote client (\<open>listening\<close>), the \<open>onOutput\<close> emitter (its listeners
  and the calls made to them), the requests sent, and the returned promise.
\<close>

record RunningCommand =
  opts :: RunOpts
  phase :: phase
  cmdShell :: "OpenShellDTO option"
  combinedOut :: string
  barrier :: "int option Barrier"
  storeDisposed :: bool
  stored :: "subscription list"
  listening :: "subscription list"
  onOutputListeners :: "nat list"
  onOutputCalls :: "(nat \<times> string) list"
  requests :: "request list"
  resultPromise :: "CommandResult Promise"

text \<open>
  What can happen to a command after the call: the promise of \<open>runPreCommand()\<close> settles
  (\<open>Some e\<close> is a rejection with \<open>e\<close>), the promise of \<open>shell.create\<close> settles, the remote
  client dispatches an output, exited or terminated notification carrying a shell id, the
  scheduler resumes the body suspended at \<open>await barrier.wait()\<close>, the caller invokes
  \<open>kill()\<close>, or the caller registers a listener on \<open>onOutput\<close>. The resumption is an event
  of its own because it is a later job than the listener call that opens the barrier;
  it has no effect while the barrier is pending.
\<close>

datatype run_event =
  PreCommandSettled "error option"
| CreateSettled "error + OpenShellDTO"
| ShellOut string string
| ShellExited string int
| ShellTerminated string
| Resume
| Kill
| Listen nat

text \<open>\<^verbatim>\<open>`env ${Object.entries(env ?? {}).map(([k, v]) => `${k}=${v}`).join(" ")} ${command}`\<close>\<close>

definition commandWithEnv :: "RunOpts \<Rightarrow> string" where
  "commandWithEnv ro =
     ''env '' @ join '' '' (map (\<lambda>(key, value). key @ ''='' @ value)
                              (case env ro of None \<Rightarrow> [] | Some es \<Rightarrow> es))
       @ '' '' @ command ro"

text \<open>\<open>onOutput.fire(v)\<close>; the listeners of \<open>onOutput\<close> only record what they receive.\<close>

definition emit :: "string \<Rightarrow> RunningCommand \<Rightarrow> RunningCommand" where
  "emit v s = s\<lparr>onOutputCalls := onOutputCalls s @ map (\<lambda>l. (l, v)) (onOutputListeners s)\<rparr>"

text \<open>
  \<open>disposableStore.dispose()\<close>: the store holds the \<open>onOutput\<close> emitter from the start
  (disposing an emitter clears its listeners) and the subscriptions added later.
\<close>

definition storeDispose :: "RunningCommand \<Rightarrow> RunningCommand" where
  "storeDispose s =
     (if storeDisposed s then s
      else s\<lparr>storeDisposed := True,
             stored := [],
             listening := filter (\<lambda>x. x \<notin> set (stored s)) (listening s),
             onOutputListeners := []\<rparr>)"

text \<open>\<open>disposableStore.add(pitcher.clients.shell.onX(listener))\<close>: register, then hand to the store.\<close>

definition subscribe :: "late_add \<Rightarrow> subscription \<Rightarrow> RunningCommand \<Rightarrow> RunningCommand" where
  "subscribe pol x s =
     (if storeDisposed s then
        (case pol of Leak \<Rightarrow> s\<lparr>listening := listening s @ [x]\<rparr> | DisposeNow \<Rightarrow> s)
      else s\<lparr>listening := listening s @ [x], stored := stored s @ [x]\<rparr>)"

text \<open>The body from the computation of \<open>commandWithEnv\<close> to \<open>await shell.create(...)\<close>.\<close>

definition requestCreate :: "RunningCommand \<Rightarrow> RunningCommand" where
  "requestCreate s =
     s\<lparr>requests := requests s @ [CreateShell (commandWithEnv (opts s))], phase := AwaitCreate\<rparr>"

text \<open>
  The call itself: the body runs up to its first \<open>await\<close>, which is the pre-command when
  there is one and the create request otherwise.
\<close>

definition runCommandAsUser :: "RunOpts \<Rightarrow> RunningCommand" where
  "runCommandAsUser ro =
     (let s0 = \<lparr>opts = ro, phase = AwaitPreCommand, cmdShell = None, combinedOut = [],
                barrier = BarrierPending, storeDisposed = False, stored = [], listening = [],
                onOutputListeners = [], onOutputCalls = [], requests = [],
                resultPromise = Pending\<rparr>
      in if runPreCommand ro then s0 else requestCreate s0)"

text \<open>The body from the assignment of \<open>shell\<close> to \<open>await barrier.wait()\<close> (or the early return).\<close>

definition created :: "late_add \<Rightarrow> OpenShellDTO \<Rightarrow> RunningCommand \<Rightarrow> RunningCommand" where
  "created pol dto s =
     (let s1 = s\<lparr>cmdShell := Some dto\<rparr>;
          s2 = (case shellName (opts s) of
                  None \<Rightarrow> s1
                | Some n \<Rightarrow> if n \<noteq> [] then s1\<lparr>requests := requests s1 @ [RenameShell (shellId dto) n]\<rparr>
                            else s1)
      in if status dto = FINISHED then
           s2\<lparr>resultPromise := Fulfilled (CommandResult (trim (join [CHR 0x0A] (buffer dto))) (exitCode dto)),
               phase := Returned\<rparr>
         else
           (let s3 = s2\<lparr>combinedOut := join [CHR 0x0A] (buffer dto)\<rparr>;
                s4 = (if combinedOut s3 \<noteq> [] then emit (combinedOut s3) s3 else s3);
                s5 = s4\<lparr>barrier := BarrierPending\<rparr>;
                s6 = subscribe pol OnShellOut s5;
                s7 = subscribe pol OnShellExited s6;
                s8 = subscribe pol OnShellTerminated s7
            in s8\<lparr>phase := AwaitBarrier\<rparr>))"

text \<open>Does the notification's shell id equal \<open>shell.shellId\<close>?\<close>

definition mine :: "RunningCommand \<Rightarrow> string \<Rightarrow> bool" where
  "mine s sid = (case cmdShell s of None \<Rightarrow> False | Some sh \<Rightarrow> sid = shellId sh)"

text \<open>The body after \<open>await barrier.wait()\<close>.\<close>

definition resume :: "RunningCommand \<Rightarrow> RunningCommand" where
  "resume s =
     (case barrier s of
        BarrierPending \<Rightarrow> s
      | BarrierDisposed \<Rightarrow>
          (storeDispose s)\<lparr>resultPromise := Rejected (Error ''Shell was disposed''), phase := Returned\<rparr>
      | BarrierOpened exitCode' \<Rightarrow>
          (storeDispose s)\<lparr>resultPromise := Fulfilled (CommandResult (trim (combinedOut s)) exitCode'),
                            phase := Returned\<rparr>)"

text \<open>\<open>resultPromise.kill\<close>.\<close>

definition kill :: "RunningCommand \<Rightarrow> RunningCommand" where
  "kill s =
     (let s1 = storeDispose s
      in case cmdShell s of
           None \<Rightarrow> s1
         | Some sh \<Rightarrow> s1\<lparr>requests := requests s1 @ [DeleteShell (shellId sh)]\<rparr>)"

text \<open>
  One step of the command: a promise the body awaits settles, a notification is
  dispatched to the listeners that are still registered, the scheduler resumes the body
  behind the barrier, or the caller uses the handle.
\<close>

fun step :: "late_add \<Rightarrow> RunningCommand \<Rightarrow> run_event \<Rightarrow> RunningCommand" where
  "step pol s (PreCommandSettled r) =
     (if phase s = AwaitPreCommand then
        (case r of
           None \<Rightarrow> requestCreate s
         | Some e \<Rightarrow> s\<lparr>resultPromise := Rejected e, phase := Returned\<rparr>)
      else s)"
| "step pol s (CreateSettled r) =
     (if phase s = AwaitCreate then
        (case r of
           Inl e \<Rightarrow> s\<lparr>resultPromise := Rejected e, phase := Returned\<rparr>
         | Inr dto \<Rightarrow> created pol dto s)
      else s)"
| "step pol s (ShellOut sid out) =
     (if OnShellOut \<in> set (listening s) \<and> mine s sid
      then (emit out s)\<lparr>combinedOut := combinedOut s @ out\<rparr>
      else s)"
| "step pol s (ShellExited sid code) =
     (if OnShellExited \<in> set (listening s) \<and> mine s sid
      then s\<lparr>barrier := Barrier_open (Some code) (barrier s)\<rparr>
      else s)"
| "step pol s (ShellTerminated sid) =
     (if OnShellTerminated \<in> set (listening s) \<and> mine s sid
      then s\<lparr>barrier := Barrier_open None (barrier s)\<rparr>
      else s)"
| "step pol s Resume = (if phase s = AwaitBarrier then resume s else s)"
| "step pol s Kill = kill s"
| "step pol s (Listen l) =
     (if l \<in> set (onOutputListeners s) then s
      else s\<lparr>onOutputListeners := onOutputListeners s @ [l]\<rparr>)"

definition run :: "late_add \<Rightarrow> RunningCommand \<Rightarrow> run_event list \<Rightarrow> RunningCommand" where
  "run pol s evs = foldl (step pol) s evs"

text \<open>The events that bring a fresh call to its create request.\<close>

definition boot :: "RunOpts \<Rightarrow> run_event list" where
  "boot ro = (if runPreCommand ro then [PreCommandSettled None] else [])"

text \<open>
  Events that neither end the session \<open>sid\<close> nor touch the handle's control flow: output
  for any session, an exit or termination of another session, a new \<open>onOutput\<close> listener.
\<close>

fun quiet :: "string \<Rightarrow> run_event \<Rightarrow> bool" where
  "quiet sid (ShellOut i out) = True"
| "quiet sid (ShellExited i code) = (i \<noteq> sid)"
| "quiet sid (ShellTerminated i) = (i \<noteq> sid)"
| "quiet sid (Listen l) = True"
| "quiet sid _ = False"

text \<open>The output chunks for session \<open>sid\<close> among the events, in arrival order.\<close>

fun outs_for :: "string \<Rightarrow> run_event list \<Rightarrow> string list" where
  "outs_for sid [] = []"
| "outs_for sid (ShellOut i out # evs) = (if i = sid then out # outs_for sid evs else outs_for sid evs)"
| "outs_for sid (ev # evs) = outs_for sid evs"

text \<open>The command waits behind a pending barrier with its three listeners registered.\<close>

definition waiting :: "OpenShellDTO \<Rightarrow> RunningCommand \<Rightarrow> bool" where
  "waiting dto s \<longleftrightarrow>
     phase s = AwaitBarrier \<and> barrier s = BarrierPending \<and> cmdShell s = Some dto \<and>
     resultPromise s = Pending \<and> \<not> storeDisposed s \<and>
     set (listening s) = {OnShellOut, OnShellExited, OnShellTerminated} \<and>
     set (stored s) = {OnShellOut, OnShellExited, OnShellTerminated}"

text \<open>The barrier has been opened with \<open>v\<close> and the body has not been resumed yet.\<close>

definition opened :: "int option \<Rightarrow> RunningCommand \<Rightarrow> bool" where
  "opened v s \<longleftrightarrow> phase s = AwaitBarrier \<and> barrier s = BarrierOpened v \<and> resultPromise s = Pending"

text \<open>The command was killed while it waited: nothing is registered, the barrier is pending.\<close>

definition stranded :: "RunningCommand \<Rightarrow> bool" where
  "stranded s \<longleftrightarrow>
     phase s = AwaitBarrier \<and> barrier s = BarrierPending \<and> resultPromise s = Pending \<and>
     listening s = []"

text \<open>The exit code a terminal notification stands for.\<close>

fun exitCodeOf :: "run_event \<Rightarrow> int option" where
  "exitCodeOf (ShellExited sid code) = Some code"
| "exitCodeOf _ = None"

text \<open>
  The command has returned normally with this exit code (\<open>Some None\<close> is the exit code
  \<open>undefined\<close>); \<open>None\<close> while the promise is pending or rejected.
\<close>

fun settledExitCode :: "CommandResult Promise \<Rightarrow> int option option" where
  "settledExitCode (Fulfilled r) = Some (res_exitCode r)"
| "settledExitCode _ = None"

text \<open>The command is about to send its create request and nothing else has happened.\<close>

definition fresh :: "RunOpts \<Rightarrow> RunningCommand \<Rightarrow> bool" where
  "fresh ro s \<longleftrightarrow>
     phase s = AwaitCreate \<and> cmdShell s = None \<and> \<not> storeDisposed s \<and> stored s = [] \<and>
     listening s = [] \<and> resultPromise s = Pending \<and> opts s = ro \<and>
     requests s = [CreateShell (commandWithEnv ro)] \<and> combinedOut s = [] \<and>
     onOutputListeners s = []"

section \<open>LanguageInterpreter\<close>

record ILanguageInterpreterOpts =
  runtime :: string
  extension :: string
  interpreterEnv :: "(string \<times> string) list"

text \<open>Decimal rendering of an integer, as a template literal renders a number.\<close>

fun digitsOf :: "nat \<Rightarrow> string" where
  "digitsOf n = (if n < 10 then [''0123456789'' ! n] else digitsOf (n div 10) @ [''0123456789'' ! (n mod 10)])"

definition numberToString :: "int \<Rightarrow> string" where
  "numberToString i = (if i < 0 then ''-'' @ digitsOf (nat (- i)) else digitsOf (nat i))"

text \<open>The answer of \<open>fs.writeFile\<close>: a result of type \<open>"error"\<close> with \<open>errno\<close> and \<open>error\<close>, or another one.\<close>

datatype WriteFileResult = WriteFileOk | WriteFileError int string

text \<open>
  The pre-command of the interpreter, given how \<open>writeFile\<close> settles: it throws
  \<^verbatim>\<open>new Error(`${tmpFile.errno}: ${tmpFile.error}`)\<close> on an error result, and a rejection of
  \<open>writeFile\<close> itself passes through the \<open>await\<close>.
\<close>

definition interpreterPreCommand :: "error + WriteFileResult \<Rightarrow> error option" where
  "interpreterPreCommand w =
     (case w of
        Inl e \<Rightarrow> Some e
      | Inr WriteFileOk \<Rightarrow> None
      | Inr (WriteFileError errno err) \<Rightarrow> Some (Error (numberToString errno @ '': '' @ err)))"

text \<open>\<open>LanguageInterpreter.run\<close>; \<open>randomString\<close> is the value of \<open>getRandomString()\<close>.\<close>

definition LanguageInterpreter_run :: "ILanguageInterpreterOpts \<Rightarrow> string \<Rightarrow> RunningCommand" where
  "LanguageInterpreter_run io randomString =
     (let tmpFileName = ''/tmp/tmp.'' @ randomString @ ''.'' @ extension io
      in runCommandAsUser \<lparr>command = runtime io @ '' '' @ tmpFileName,
                            env = Some (interpreterEnv io),
                            shellName = None,
                            runPreCommand = True\<rparr>)"

section \<open>Emitter\<close>

text \<open>
  A \<open>Set\<close> is a list without repetitions in insertion order, which is the order of
  \<open>forEach\<close>, of spreading and of \<open>Array.from\<close>.
\<close>

definition Set_add :: "'a \<Rightarrow> 'a list \<Rightarrow> 'a list" where
  "Set_add x xs = (if x \<in> set xs then xs else xs @ [x])"


definition Set_of :: "'a list \<Rightarrow> 'a list" where
  "Set_of xs = foldl (\<lambda>s x. Set_add x s) [] xs"

text \<open>
  Listeners are functions compared by identity; a number stands for each. The record
  holds the listener set of the emitter and the calls made to listeners so far.
\<close>

record 'v Emitter =
  registeredListeners :: "nat list"
  calls :: "(nat \<times> 'v) list"




definition Emitter_dispose :: "'v Emitter \<Rightarrow> 'v Emitter" where
  "Emitter_dispose em = em\<lparr>registeredListeners := []\<rparr>"








section \<open>AsyncEmitter\<close>

text \<open>How the promise returned by a listener settles.\<close>

datatype settlement = resolved | rejected error

text \<open>
  Modelled from the spec: \<open>sleep\<close> (\<open>utils/sleep\<close>) is not among the sources; \<open>sleep(ms)\<close>
  is fulfilled once \<open>ms\<close> milliseconds have elapsed. \<open>TimerElapsed\<close> is the moment
  \<open>sleep(this.timeoutMs)\<close> is fulfilled, and \<open>Settle i r\<close> the moment the promise of the
  \<open>i\<close>-th listener (in the order of \<open>Array.from\<close>) settles. A trace lists these moments in
  the order in which they happen; a promise settles once, so only the first \<open>Settle i\<close>
  counts. Every listener returns a promise, as its type says.
\<close>

datatype async_event = Settle nat settlement | TimerElapsed

text \<open>
  One call of \<open>fire\<close>: the calls made to the listeners, the results \<open>allSettled\<close> has
  collected, and the promise returned (\<open>Promise.race\<close>).
\<close>

record 'v Firing =
  invoked :: "(nat \<times> 'v) list"
  results :: "settlement option list"
  racePromise :: "unit Promise"

text \<open>The loop over \<open>results\<close> throws the reason of the first rejected one.\<close>

fun firstRejection :: "settlement option list \<Rightarrow> error option" where
  "firstRejection [] = None"
| "firstRejection (Some (rejected reason) # rs) = Some reason"
| "firstRejection (r # rs) = firstRejection rs"

text \<open>\<open>Promise.allSettled(...).then(...)\<close>: acts once every listener has settled.\<close>

definition allSettledThen :: "'v Firing \<Rightarrow> 'v Firing" where
  "allSettledThen f =
     (if racePromise f = Pending \<and> None \<notin> set (results f) then
        f\<lparr>racePromise := (case firstRejection (results f) of
                             None \<Rightarrow> Fulfilled ()
                           | Some reason \<Rightarrow> Rejected reason)\<rparr>
      else f)"

definition AsyncEmitter_fire :: "nat list \<Rightarrow> 'v \<Rightarrow> 'v Firing" where
  "AsyncEmitter_fire listeners v =
     allSettledThen \<lparr>invoked = map (\<lambda>listener. (listener, v)) listeners,
                     results = replicate (length listeners) None,
                     racePromise = Pending\<rparr>"

fun fire_step :: "'v Firing \<Rightarrow> async_event \<Rightarrow> 'v Firing" where
  "fire_step f (Settle i r) =
     (if i < length (results f) \<and> results f ! i = None
      then allSettledThen (f\<lparr>results := (results f)[i := Some r]\<rparr>)
      else f)"
| "fire_step f TimerElapsed =
     (if racePromise f = Pending
      then f\<lparr>racePromise := Rejected (Error ''Timeout firing async event'')\<rparr>
      else f)"

definition fire_run :: "'v Firing \<Rightarrow> async_event list \<Rightarrow> 'v Firing" where
  "fire_run f tr = foldl fire_step f tr"

text \<open>How the \<open>i\<close>-th listener's promise settled within a trace, if it did.\<close>

fun firstSettle :: "nat \<Rightarrow> async_event list \<Rightarrow> settlement option" where
  "firstSettle i [] = None"
| "firstSettle i (Settle j r # tr) = (if j = i then Some r else firstSettle i tr)"
| "firstSettle i (TimerElapsed # tr) = firstSettle i tr"

text \<open>The part of a trace before the timeout elapses.\<close>

definition beforeTimer :: "async_event list \<Rightarrow> async_event list" where
  "beforeTimer tr = takeWhile (\<lambda>e. e \<noteq> TimerElapsed) tr"

text \<open>What \<open>allSettled(...).then(...)\<close> makes of the collected results.\<close>

definition verdict :: "settlement option list \<Rightarrow> unit Promise" where
  "verdict rs =
     (if None \<in> set rs then Pending
      else (case firstRejection rs of None \<Rightarrow> Fulfilled () | Some reason \<Rightarrow> Rejected reason))"

text \<open>The settlements of the first \<open>n\<close> listeners within a trace.\<close>

definition collected :: "nat \<Rightarrow> async_event list \<Rightarrow> settlement option list" where
  "collected n tr = map (\<lambda>i. firstSettle i tr) [0..<n]"

section \<open>Ports\<close>

record Port =
  port :: nat
  url :: string

datatype PortInfo = PortInfo (info_port: nat) (hostname: string)

text \<open>A call of \<open>onDidPortOpenEmitter.fire\<close> or of \<open>onDidPortCloseEmitter.fire\<close>.\<close>

datatype port_event = DidPortOpen PortInfo | DidPortClose nat

text \<open>The constructor adds the port number of every port of \<open>getPorts()\<close> to the set.\<close>

definition Ports_new :: "Port list \<Rightarrow> nat list" where
  "Ports_new ports = Set_of (map port ports)"

text \<open>
  The listener on \<open>onPortsUpdated\<close>, from the set \<open>lastOpenedPorts\<close> and the batch to the
  events fired (in order) and the new set.
\<close>

definition onPortsUpdated :: "nat list \<Rightarrow> Port list \<Rightarrow> port_event list \<times> nat list" where
  "onPortsUpdated lastOpenedPorts ports =
     (let openedPorts = map (\<lambda>p. PortInfo (port p) (url p))
                            (filter (\<lambda>p. port p \<notin> set lastOpenedPorts) ports);
          closedPorts = filter (\<lambda>n. \<not> list_ex (\<lambda>p. port p = n) ports) lastOpenedPorts
      in (map DidPortOpen openedPorts @ map DidPortClose closedPorts, Set_of (map port ports)))"

text \<open>The number of open events, and of close events, for a port number among events.\<close>

definition opensFor :: "nat \<Rightarrow> port_event list \<Rightarrow> nat" where
  "opensFor n evs = length (filter (\<lambda>e. case e of DidPortOpen i \<Rightarrow> info_port i = n | DidPortClose m \<Rightarrow> False) evs)"

definition closesFor :: "nat \<Rightarrow> port_event list \<Rightarrow> nat" where
  "closesFor n evs = length (filter (\<lambda>e. case e of DidPortOpen i \<Rightarrow> False | DidPortClose m \<Rightarrow> m = n) evs)"

text \<open>The newest \<open>n\<close> entries of a list.\<close>

definition newest :: "nat \<Rightarrow> 'a list \<Rightarrow> 'a list" where
  "newest n xs = drop (length xs - n) xs"

section \<open>The display buffer of a shell handle\<close>

lemma newest_length: "length (newest n xs) \<le> n"
  by (simp add: newest_def)

lemma newest_id: "length xs \<le> n \<Longrightarrow> newest n xs = xs"
  by (simp add: newest_def)

lemma newest_push:
  assumes "length xs \<le> 1000"
  shows "(if length (xs @ [c]) > 1000 then tl (xs @ [c]) else xs @ [c]) = newest 1000 (xs @ [c])"
proof (cases "length xs = 1000")
  case True
  then obtain a list where xs: "xs = a # list" by (cases xs) auto
  with True have "length list = 999" by simp
  then show ?thesis by (simp add: newest_def xs)
next
  case False
  with assms show ?thesis by (simp add: newest_def)
qed

lemma newest_newest_append: "newest n (newest n xs @ ys) = newest n (xs @ ys)"
proof (cases "n \<le> length xs")
  case True
  then show ?thesis by (simp add: newest_def add.commute)
next
  case False
  then show ?thesis by (simp add: newest_def)
qed

lemma onShellsUpdated_keeps:
  "shellId (shell (onShellsUpdated inst shells)) = shellId (shell inst)"
  "output (onShellsUpdated inst shells) = output inst"
  "isDisposed (onShellsUpdated inst shells) = isDisposed inst"
  by (auto simp: onShellsUpdated_def find_Some_iff split: option.splits)

lemma onShellOut_keeps:
  "shellId (shell (onShellOut inst sid out)) = shellId (shell inst)"
  "isDisposed (onShellOut inst sid out) = isDisposed inst"
  by (auto simp: onShellOut_def Let_def)

lemma onShellOut_output:
  "length (output inst) \<le> 1000 \<Longrightarrow>
   output (onShellOut inst sid out) =
     (if sid = shellId (shell inst) then newest 1000 (output inst @ [out]) else output inst)"
  using newest_push[of "output inst" out] by (auto simp: onShellOut_def Let_def)

lemma deliver_all_output:
  "\<not> isDisposed inst \<Longrightarrow> length (output inst) \<le> 1000 \<Longrightarrow>
   output (deliver_all inst ns) = newest 1000 (output inst @ chunks_for (shellId (shell inst)) ns)"
proof (induction ns arbitrary: inst)
  case Nil
  then show ?case by (simp add: deliver_all_def newest_id)
next
  case (Cons n ns)
  show ?case
  proof (cases n)
    case (ShellOutN sid out)
    let ?i = "onShellOut inst sid out"
    have d: "deliver inst n = ?i" using Cons.prems ShellOutN by (simp add: deliver_def)
    have len: "length (output ?i) \<le> 1000"
      using Cons.prems by (simp add: onShellOut_output newest_length)
    have "output (deliver_all inst (n # ns)) = output (deliver_all ?i ns)"
      by (simp add: deliver_all_def d)
    also have "\<dots> = newest 1000 (output ?i @ chunks_for (shellId (shell inst)) ns)"
      using Cons.IH[of ?i] len Cons.prems by (simp add: onShellOut_keeps)
    also have "\<dots> = newest 1000 (output inst @ chunks_for (shellId (shell inst)) (n # ns))"
      using Cons.prems newest_newest_append[of 1000 "output inst @ [out]"]
      by (simp add: onShellOut_output ShellOutN)
    finally show ?thesis .
  next
    case (ShellsUpdatedN shells)
    let ?i = "onShellsUpdated inst shells"
    have d: "deliver inst (ShellsUpdatedN shells) = ?i" using Cons.prems by (simp add: deliver_def)
    show ?thesis
      using Cons.IH[of ?i] Cons.prems
      by (simp add: deliver_all_def d onShellsUpdated_keeps ShellsUpdatedN)
  qed
qed

lemma chunks_for_replicate: "chunks_for sid (replicate n (ShellOutN sid c)) = replicate n c"
  by (induction n) simp_all

text \<open>
  Within capacity the buffer behaves as a ring buffer: when the handle starts with at
  most 1000 entries (or with none, the descriptor having no buffer), after any sequence
  of notifications the display buffer holds the newest 1000 of the initial entries
  followed by the chunks that arrived for its shell id, in arrival order, and
  \<open>getOutput()\<close> returns these entries joined by newlines.
\<close>

lemma ring_buffer_within_capacity:
  assumes "length (case buf of None \<Rightarrow> [] | Some b \<Rightarrow> b) \<le> 1000"
  shows "output (deliver_all (ShellInstance_new dto buf) ns)
           = newest 1000 ((case buf of None \<Rightarrow> [] | Some b \<Rightarrow> b) @ chunks_for (shellId dto) ns)
       \<and> length (output (deliver_all (ShellInstance_new dto buf) ns)) \<le> 1000
       \<and> getOutput (deliver_all (ShellInstance_new dto buf) ns)
           = join [CHR 0x0A] (newest 1000 ((case buf of None \<Rightarrow> [] | Some b \<Rightarrow> b) @ chunks_for (shellId dto) ns))"
proof -
  let ?inst = "ShellInstance_new dto buf"
  have "output (deliver_all ?inst ns) = newest 1000 (output ?inst @ chunks_for (shellId (shell ?inst)) ns)"
    by (rule deliver_all_output) (use assms in \<open>simp_all add: ShellInstance_new_def\<close>)
  then have o: "output (deliver_all ?inst ns)
      = newest 1000 ((case buf of None \<Rightarrow> [] | Some b \<Rightarrow> b) @ chunks_for (shellId dto) ns)"
    by (simp add: ShellInstance_new_def)
  show ?thesis
    by (simp add: o newest_length getOutput_def)
qed

text \<open>
  An empty initial buffer and 1001 chunks, one \<open>old\<close> followed by 1000 \<open>new\<close>: the oldest
  chunk is gone and the newest 1000 remain.
\<close>

lemma ring_buffer_1001_chunks:
  "output (deliver_all
        (ShellInstance_new \<lparr>shellId = ''s1'', name = ''bash'', status = RUNNING, exitCode = None\<rparr> (Some []))
        (ShellOutN ''s1'' ''old'' # replicate 1000 (ShellOutN ''s1'' ''new'')))
     = replicate 1000 ''new''"
  using ring_buffer_within_capacity [of "Some []"
      "\<lparr>shellId = ''s1'', name = ''bash'', status = RUNNING, exitCode = None\<rparr>"
      "ShellOutN ''s1'' ''old'' # replicate 1000 (ShellOutN ''s1'' ''new'')"]
  by (simp add: chunks_for_replicate newest_def)

text \<open>
  C7. The display buffer of a shell handle is to hold at most 1000 entries after any
  sequence of output notifications for its shell. The code caps the buffer with one
  \<open>shift\<close> after a push that makes it longer than 1000, and does not trim the buffer it
  takes from the descriptor: a handle built on a descriptor that carries 1001 buffered
  entries has its 1001 entries before any notification and still has 1001 entries after
  an output notification for its shell, so the bound of the claim is broken.
\<close>

theorem ring_buffer_over_capacity:
  "length (output (ShellInstance_new
        \<lparr>shellId = ''s1'', name = ''bash'', status = RUNNING, exitCode = None\<rparr>
        (Some (replicate 1001 ''x'')))) = 1001
   \<and> length (output (deliver_all
        (ShellInstance_new \<lparr>shellId = ''s1'', name = ''bash'', status = RUNNING, exitCode = None\<rparr>
           (Some (replicate 1001 ''x'')))
        [ShellOutN ''s1'' ''y''])) = 1001
   \<and> \<not> length (output (deliver_all
        (ShellInstance_new \<lparr>shellId = ''s1'', name = ''bash'', status = RUNNING, exitCode = None\<rparr>
           (Some (replicate 1001 ''x'')))
        [ShellOutN ''s1'' ''y''])) \<le> 1000"
  by (simp add: deliver_all_def deliver_def onShellOut_def ShellInstance_new_def Let_def)

section \<open>Disposal of a shell handle\<close>

text \<open>
  C9. Disposing a shell handle makes the close call for its shell on the remote client
  (exactly that call, made by the teardown hook), and whatever the close request answers,
  disposal completes without an error: when the request fails with \<open>e\<close>, the close call
  itself yields \<open>e\<close>, and \<open>dispose()\<close> still ends normally with the handle disposed.
\<close>

theorem dispose_swallows_close_failure:
  "fst (ShellInstance_dispose answer inst made) = Inr ()
   \<and> (\<not> isDisposed inst \<longrightarrow>
        snd (snd (ShellInstance_dispose answer inst made)) = made @ [ShellClose (shellId (shell inst))]
      \<and> snd (closeOnDispose answer inst made) = snd (shell_close answer (shellId (shell inst)) made)
      \<and> isDisposed (fst (snd (ShellInstance_dispose answer inst made))))
   \<and> (answer (shellId (shell inst)) = Inl e \<longrightarrow>
        fst (shell_close answer (shellId (shell inst)) made) = Inl e
      \<and> fst (closeOnDispose answer inst made) = Inr ())"
  by (auto simp: ShellInstance_dispose_def closeOnDispose_def try_catch_def shell_close_def
           split: sum.splits prod.splits)

text \<open>Witness: the close request of a fresh handle fails with \<open>already closed\<close>.\<close>

theorem dispose_swallows_close_failure_witness:
  "fst (shell_close (\<lambda>sid. Inl (Error ''already closed'')) ''s1'' []) = Inl (Error ''already closed'')
   \<and> ShellInstance_dispose (\<lambda>sid. Inl (Error ''already closed''))
     (ShellInstance_new \<lparr>shellId = ''s1'', name = ''bash'', status = RUNNING, exitCode = None\<rparr> None) []
   = (Inr (),
      \<lparr>shell = \<lparr>shellId = ''s1'', name = ''bash'', status = RUNNING, exitCode = None\<rparr>,
       output = [], outputFired = [], updatedFired = 0, isDisposed = True\<rparr>,
      [ShellClose ''s1''])"
  using dispose_swallows_close_failure [of "\<lambda>sid. Inl (Error ''already closed'')"
      "ShellInstance_new \<lparr>shellId = ''s1'', name = ''bash'', status = RUNNING, exitCode = None\<rparr> None"
      "[]" "Error ''already closed''"]
  by (simp add: ShellInstance_dispose_def closeOnDispose_def try_catch_def shell_close_def
        ShellInstance_new_def)

section \<open>The run path\<close>

lemma run_append: "run pol s (xs @ ys) = run pol (run pol s xs) ys"
  by (simp add: run_def)

lemma run_Cons: "run pol s (x # xs) = run pol (step pol s x) xs"
  by (simp add: run_def)

lemma run_Nil: "run pol s [] = s"
  by (simp add: run_def)

lemma booted: "fresh ro (run pol (runCommandAsUser ro) (boot ro))"
  by (simp add: fresh_def run_def boot_def runCommandAsUser_def requestCreate_def)

lemma created_waiting:
  assumes "fresh ro s" "status dto \<noteq> FINISHED"
  shows "waiting dto (created pol dto s)"
    and "combinedOut (created pol dto s) = join [CHR 0x0A] (buffer dto)"
  using assms
  by (auto simp: fresh_def created_def waiting_def subscribe_def emit_def Let_def split: option.splits)

lemma created_finished:
  assumes "fresh ro s" "status dto = FINISHED"
  shows "resultPromise (created pol dto s)
           = Fulfilled (CommandResult (trim (join [CHR 0x0A] (buffer dto))) (exitCode dto))"
    and "listening (created pol dto s) = []" and "stored (created pol dto s) = []"
    and "phase (created pol dto s) = Returned"
  using assms
  by (auto simp: fresh_def created_def Let_def split: option.splits)

lemma quiet_step:
  assumes "waiting dto s" "quiet (shellId dto) ev"
  shows "waiting dto (step pol s ev) \<and>
         combinedOut (step pol s ev) = combinedOut s @ concat (outs_for (shellId dto) [ev])"
  using assms
  by (cases ev) (auto simp: waiting_def mine_def emit_def)

lemma outs_for_Cons: "outs_for sid (ev # evs) = outs_for sid [ev] @ outs_for sid evs"
  by (cases ev) auto

lemma quiet_run:
  assumes "waiting dto s" "\<forall>ev\<in>set evs. quiet (shellId dto) ev"
  shows "waiting dto (run pol s evs) \<and>
         combinedOut (run pol s evs) = combinedOut s @ concat (outs_for (shellId dto) evs)"
  using assms
proof (induction evs arbitrary: s)
  case Nil
  then show ?case by (simp add: run_Nil)
next
  case (Cons ev evs)
  from Cons.prems have q: "quiet (shellId dto) ev" and qs: "\<forall>ev\<in>set evs. quiet (shellId dto) ev"
    by simp_all
  note st = quiet_step[OF Cons.prems(1) q, of pol]
  from Cons.IH[OF conjunct1[OF st] qs] st
  show ?case
    by (simp add: run_Cons outs_for_Cons[of _ ev evs])
qed

lemma terminal_opens:
  assumes "waiting dto s" "ev = ShellExited (shellId dto) c \<or> ev = ShellTerminated (shellId dto)"
  shows "opened (exitCodeOf ev) (step pol s ev) \<and> combinedOut (step pol s ev) = combinedOut s"
  using assms
  by (auto simp: waiting_def opened_def mine_def Barrier_open_def)

lemma opened_step:
  assumes "opened v s" "ev \<noteq> Resume"
  shows "opened v (step pol s ev)"
  using assms
  by (cases ev)
     (auto simp: opened_def Barrier_open_def emit_def kill_def storeDispose_def Let_def
           split: option.splits)

lemma opened_run:
  assumes "opened v s" "Resume \<notin> set evs"
  shows "opened v (run pol s evs)"
  using assms
  by (induction evs arbitrary: s) (auto simp: run_Nil run_Cons opened_step)

lemma opened_resume:
  assumes "opened v s"
  shows "resultPromise (step pol s Resume) = Fulfilled (CommandResult (trim (combinedOut s)) v)"
    and "phase (step pol s Resume) = Returned"
  using assms by (auto simp: opened_def resume_def)

lemma returned_step:
  assumes "phase s = Returned"
  shows "phase (step pol s ev) = Returned \<and> resultPromise (step pol s ev) = resultPromise s"
  using assms
  by (cases ev) (auto simp: emit_def kill_def storeDispose_def Let_def split: option.splits)

lemma returned_run:
  assumes "phase s = Returned"
  shows "phase (run pol s evs) = Returned \<and> resultPromise (run pol s evs) = resultPromise s"
  using assms
proof (induction evs arbitrary: s)
  case Nil
  then show ?case by (simp add: run_Nil)
next
  case (Cons ev evs)
  from returned_step[OF Cons.prems, of pol ev] Cons.IH[of "step pol s ev"]
  show ?case by (simp add: run_Cons)
qed

lemma unsubscribed_step:
  assumes "phase s = Returned" "listening s = []"
  shows "phase (step pol s ev) = Returned \<and> listening (step pol s ev) = []"
  using assms
  by (cases ev) (auto simp: emit_def kill_def storeDispose_def Let_def split: option.splits)

lemma unsubscribed_run:
  assumes "phase s = Returned" "listening s = []"
  shows "listening (run pol s evs) = []"
  using assms
proof (induction evs arbitrary: s)
  case Nil
  then show ?case by (simp add: run_Nil)
next
  case (Cons ev evs)
  from unsubscribed_step[OF Cons.prems, of pol ev] Cons.IH[of "step pol s ev"]
  show ?case by (simp add: run_Cons)
qed

lemma kill_strands:
  assumes "waiting dto s"
  shows "stranded (kill s)" and "requests (kill s) = requests s @ [DeleteShell (shellId dto)]"
  using assms
  by (auto simp: waiting_def stranded_def kill_def storeDispose_def Let_def filter_empty_conv)

lemma stranded_step:
  assumes "stranded s"
  shows "stranded (step pol s ev)"
  using assms
  by (cases ev)
     (auto simp: stranded_def resume_def emit_def kill_def storeDispose_def Let_def
           split: option.splits)

lemma stranded_run:
  assumes "stranded s"
  shows "stranded (run pol s evs)"
  using assms
  by (induction evs arbitrary: s) (auto simp: run_Nil run_Cons stranded_step)

lemma start_waiting:
  assumes "status dto \<noteq> FINISHED"
  shows "waiting dto (run pol (runCommandAsUser ro) (boot ro @ [CreateSettled (Inr dto)]))"
    and "combinedOut (run pol (runCommandAsUser ro) (boot ro @ [CreateSettled (Inr dto)]))
           = join [CHR 0x0A] (buffer dto)"
proof -
  let ?s = "run pol (runCommandAsUser ro) (boot ro)"
  have f: "fresh ro ?s" by (rule booted)
  then have p: "phase ?s = AwaitCreate" by (simp add: fresh_def)
  have e: "run pol (runCommandAsUser ro) (boot ro @ [CreateSettled (Inr dto)]) = created pol dto ?s"
    by (simp add: run_append run_Cons run_Nil p)
  show "waiting dto (run pol (runCommandAsUser ro) (boot ro @ [CreateSettled (Inr dto)]))"
    unfolding e by (rule created_waiting(1)[OF f assms])
  show "combinedOut (run pol (runCommandAsUser ro) (boot ro @ [CreateSettled (Inr dto)]))
          = join [CHR 0x0A] (buffer dto)"
    unfolding e by (rule created_waiting(2)[OF f assms])
qed

lemma settles_after_exit:
  assumes "status dto \<noteq> FINISHED" and "buffer dto = []"
    and "\<forall>ev\<in>set evs. quiet (shellId dto) ev"
  shows "resultPromise (run pol (runCommandAsUser ro)
           (boot ro @ [CreateSettled (Inr dto)] @ evs @ [ShellExited (shellId dto) e, Resume]))
         = Fulfilled (CommandResult (trim (concat (outs_for (shellId dto) evs))) (Some e))"
proof -
  let ?s = "run pol (runCommandAsUser ro) (boot ro @ [CreateSettled (Inr dto)])"
  have w: "waiting dto ?s" and c: "combinedOut ?s = []"
    using start_waiting[OF assms(1), of pol ro] assms(2) by simp_all
  let ?t = "run pol ?s evs"
  have wt: "waiting dto ?t" and ct: "combinedOut ?t = concat (outs_for (shellId dto) evs)"
    using quiet_run[OF w assms(3), of pol] c by simp_all
  let ?u = "step pol ?t (ShellExited (shellId dto) e)"
  have ou: "opened (Some e) ?u" and cu: "combinedOut ?u = combinedOut ?t"
    using terminal_opens[OF wt, of "ShellExited (shellId dto) e" e pol] by simp_all
  have "run pol (runCommandAsUser ro)
           (boot ro @ [CreateSettled (Inr dto)] @ evs @ [ShellExited (shellId dto) e, Resume])
        = step pol ?u Resume"
    by (simp only: run_append run_Cons run_Nil append_assoc[symmetric])
  then show ?thesis
    using opened_resume(1)[OF ou, of pol] cu ct by simp
qed

lemma outs_for_map: "outs_for sid (map (ShellOut sid) cs) = cs"
  by (induction cs) simp_all

lemma first_terminal_decides:
  assumes "status dto \<noteq> FINISHED"
    and "\<forall>ev\<in>set pre. quiet (shellId dto) ev"
    and "term = ShellExited (shellId dto) c \<or> term = ShellTerminated (shellId dto)"
    and "Resume \<notin> set post"
  shows "settledExitCode (resultPromise (run pol (runCommandAsUser ro)
           (boot ro @ [CreateSettled (Inr dto)] @ pre @ [term] @ post @ [Resume] @ rest)))
         = Some (exitCodeOf term)"
proof -
  let ?s = "run pol (runCommandAsUser ro) (boot ro @ [CreateSettled (Inr dto)])"
  have w: "waiting dto ?s" by (rule start_waiting(1)[OF assms(1)])
  let ?t = "run pol ?s pre"
  have wt: "waiting dto ?t" using quiet_run[OF w assms(2), of pol] by simp
  let ?u = "step pol ?t term"
  have ou: "opened (exitCodeOf term) ?u"
    using terminal_opens[OF wt assms(3), of pol] by simp
  let ?v = "run pol ?u post"
  have ov: "opened (exitCodeOf term) ?v" by (rule opened_run[OF ou assms(4)])
  let ?w = "step pol ?v Resume"
  have rw: "resultPromise ?w = Fulfilled (CommandResult (trim (combinedOut ?v)) (exitCodeOf term))"
    and pw: "phase ?w = Returned"
    using opened_resume[OF ov, of pol] by simp_all
  have "run pol (runCommandAsUser ro)
           (boot ro @ [CreateSettled (Inr dto)] @ pre @ [term] @ post @ [Resume] @ rest)
        = run pol ?w rest"
    by (simp only: run_append run_Cons run_Nil append_assoc[symmetric])
  then show ?thesis
    using returned_run[OF pw, of pol rest] rw by simp
qed

lemma failed_step:
  assumes "phase s = Returned" "cmdShell s = None" "requests s = []"
  shows "phase (step pol s ev) = Returned \<and> cmdShell (step pol s ev) = None
       \<and> requests (step pol s ev) = [] \<and> resultPromise (step pol s ev) = resultPromise s"
  using assms
  by (cases ev) (auto simp: emit_def kill_def storeDispose_def mine_def Let_def)

lemma failed_run:
  assumes "phase s = Returned" "cmdShell s = None" "requests s = []"
  shows "requests (run pol s evs) = [] \<and> resultPromise (run pol s evs) = resultPromise s"
  using assms
proof (induction evs arbitrary: s)
  case Nil
  then show ?case by (simp add: run_Nil)
next
  case (Cons ev evs)
  from failed_step[OF Cons.prems, of pol ev] Cons.IH[of "step pol s ev"]
  show ?case by (simp add: run_Cons)
qed

lemma kill_before_shell:
  assumes "cmdShell s = None"
  shows "requests (kill s) = requests s" "storeDisposed (kill s)"
    "\<not> storeDisposed s \<Longrightarrow> onOutputListeners (kill s) = []"
  using assms
  by (auto simp: kill_def storeDispose_def)

lemmas run_defs = run_def runCommandAsUser_def requestCreate_def created_def subscribe_def
  kill_def storeDispose_def mine_def resume_def Barrier_open_def Let_def commandWithEnv_def
  emit_def boot_def


text \<open>
  C1. A command started through the run path whose session is reported \<open>RUNNING\<close> with
  an empty buffer: when output notifications arrive (those for other sessions are
  ignored), then the exit notification of this session with code \<open>e\<close>, and the body is
  resumed, the promise is fulfilled with the plain concatenation of this session's chunks,
  trimmed, and exit code \<open>e\<close>. In particular for the chunks \<open>c1, ..., cn\<close> of this session
  alone the output is \<open>trim (c1 @ ... @ cn)\<close>.
\<close>

theorem run_settles_with_trimmed_concatenation:
  assumes "status dto = RUNNING" and "buffer dto = []"
    and "\<forall>ev\<in>set evs. quiet (shellId dto) ev"
  shows "resultPromise (run pol (runCommandAsUser ro)
           (boot ro @ [CreateSettled (Inr dto)] @ evs @ [ShellExited (shellId dto) e, Resume]))
         = Fulfilled (CommandResult (trim (concat (outs_for (shellId dto) evs))) (Some e))
       \<and> resultPromise (run pol (runCommandAsUser ro)
           (boot ro @ [CreateSettled (Inr dto)] @ map (ShellOut (shellId dto)) cs
              @ [ShellExited (shellId dto) e, Resume]))
         = Fulfilled (CommandResult (trim (concat cs)) (Some e))"
proof -
  from assms(1) have nf: "status dto \<noteq> FINISHED" by simp
  have q: "\<forall>ev\<in>set (map (ShellOut (shellId dto)) cs). quiet (shellId dto) ev" by simp
  from settles_after_exit[OF nf assms(2) assms(3), of pol ro e]
       settles_after_exit[OF nf assms(2) q, of pol ro e]
  show ?thesis by (simp add: outs_for_map)
qed

text \<open>Witness: the command \<open>echo hi\<close>, one chunk \<open>hi\<close> with a newline, exit code 0.\<close>

theorem run_settles_with_trimmed_concatenation_witness:
  "status \<lparr>shellId = ''s1'', name = ''echo hi'', status = RUNNING, exitCode = None, buffer = []\<rparr> = RUNNING
   \<and> buffer \<lparr>shellId = ''s1'', name = ''echo hi'', status = RUNNING, exitCode = None, buffer = []\<rparr> = []
   \<and> quiet ''s1'' (ShellOut ''s1'' ''hi\<newline>'')
   \<and> resultPromise (run Leak
        (runCommandAsUser \<lparr>command = ''echo hi'', env = None, shellName = None, runPreCommand = False\<rparr>)
        [CreateSettled (Inr \<lparr>shellId = ''s1'', name = ''echo hi'', status = RUNNING, exitCode = None, buffer = []\<rparr>),
         ShellOut ''s1'' ''hi\<newline>'', ShellExited ''s1'' 0, Resume])
      = Fulfilled (CommandResult ''hi'' (Some 0))"
  using run_settles_with_trimmed_concatenation [of
      "\<lparr>shellId = ''s1'', name = ''echo hi'', status = RUNNING, exitCode = None, buffer = []\<rparr>"
      "[ShellOut ''s1'' ''hi\<newline>'']" Leak
      "\<lparr>command = ''echo hi'', env = None, shellName = None, runPreCommand = False\<rparr>" 0
      "[''hi\<newline>'']"]
  by (simp add: boot_def trim_def trimStart_def isWhiteSpace_def)

text \<open>
  C2. For a running command of the run path, the first terminal notification for its
  session decides the exit code: after an exited notification with code \<open>c\<close> the promise
  is fulfilled with exit code \<open>c\<close>, after a terminated notification with the exit code
  \<open>undefined\<close> (\<open>None\<close>, which is not \<open>Some 0\<close>); whatever arrives between that notification
  and the resumption of the body (\<open>post\<close>, further terminal notifications included) and
  after the promise has settled (\<open>rest\<close>) does not change it.
\<close>

theorem first_terminal_notification_decides_exit_code:
  assumes "status dto \<noteq> FINISHED"
    and "\<forall>ev\<in>set pre. quiet (shellId dto) ev"
    and "Resume \<notin> set post"
  shows "settledExitCode (resultPromise (run pol (runCommandAsUser ro)
           (boot ro @ [CreateSettled (Inr dto)] @ pre @ [ShellExited (shellId dto) c]
              @ post @ [Resume] @ rest)))
         = Some (Some c)
       \<and> settledExitCode (resultPromise (run pol (runCommandAsUser ro)
           (boot ro @ [CreateSettled (Inr dto)] @ pre @ [ShellTerminated (shellId dto)]
              @ post @ [Resume] @ rest)))
         = Some None"
  using first_terminal_decides[OF assms(1,2) _ assms(3), of "ShellExited (shellId dto) c" c pol ro rest]
        first_terminal_decides[OF assms(1,2) _ assms(3), of "ShellTerminated (shellId dto)" c pol ro rest]
  by simp

text \<open>
  Witness: an exit with code 3 followed by a termination and an exit with code 0, and a
  termination followed by the same.
\<close>

theorem first_terminal_notification_decides_exit_code_witness:
  "quiet ''s1'' (ShellOut ''s1'' ''a'')
   \<and> settledExitCode (resultPromise (run Leak
        (runCommandAsUser \<lparr>command = ''make'', env = None, shellName = None, runPreCommand = False\<rparr>)
        [CreateSettled (Inr \<lparr>shellId = ''s1'', name = ''make'', status = RUNNING, exitCode = None, buffer = []\<rparr>),
         ShellOut ''s1'' ''a'', ShellExited ''s1'' 3,
         ShellTerminated ''s1'', ShellExited ''s1'' 0, Resume, ShellTerminated ''s1'']))
      = Some (Some 3)
   \<and> settledExitCode (resultPromise (run Leak
        (runCommandAsUser \<lparr>command = ''make'', env = None, shellName = None, runPreCommand = False\<rparr>)
        [CreateSettled (Inr \<lparr>shellId = ''s1'', name = ''make'', status = RUNNING, exitCode = None, buffer = []\<rparr>),
         ShellOut ''s1'' ''a'', ShellTerminated ''s1'',
         ShellTerminated ''s1'', ShellExited ''s1'' 0, Resume, ShellTerminated ''s1'']))
      = Some None"
  using first_terminal_notification_decides_exit_code [of
      "\<lparr>shellId = ''s1'', name = ''make'', status = RUNNING, exitCode = None, buffer = []\<rparr>"
      "[ShellOut ''s1'' ''a'']" "[ShellTerminated ''s1'', ShellExited ''s1'' 0]" Leak
      "\<lparr>command = ''make'', env = None, shellName = None, runPreCommand = False\<rparr>" 3
      "[ShellTerminated ''s1'']"]
  by (simp add: boot_def)

text \<open>
  C3. If the session created by the run path is reported \<open>FINISHED\<close> at creation, the
  promise is fulfilled at once with the buffered output (joined by newlines, trimmed) and
  the session's exit code, no listener is registered for output, exited or terminated
  notifications, and none is registered later.
\<close>

theorem finished_at_creation_resolves_without_subscribing:
  assumes "status dto = FINISHED"
  shows "resultPromise (run pol (runCommandAsUser ro) (boot ro @ [CreateSettled (Inr dto)]))
           = Fulfilled (CommandResult (trim (join [CHR 0x0A] (buffer dto))) (exitCode dto))
       \<and> listening (run pol (runCommandAsUser ro) (boot ro @ [CreateSettled (Inr dto)])) = []
       \<and> stored (run pol (runCommandAsUser ro) (boot ro @ [CreateSettled (Inr dto)])) = []
       \<and> listening (run pol (runCommandAsUser ro) (boot ro @ [CreateSettled (Inr dto)] @ evs)) = []
       \<and> resultPromise (run pol (runCommandAsUser ro) (boot ro @ [CreateSettled (Inr dto)] @ evs))
           = Fulfilled (CommandResult (trim (join [CHR 0x0A] (buffer dto))) (exitCode dto))"
proof -
  let ?s = "run pol (runCommandAsUser ro) (boot ro)"
  let ?t = "run pol (runCommandAsUser ro) (boot ro @ [CreateSettled (Inr dto)])"
  have f: "fresh ro ?s" by (rule booted)
  then have p: "phase ?s = AwaitCreate" by (simp add: fresh_def)
  have e: "?t = created pol dto ?s"
    by (simp add: run_append run_Cons run_Nil p)
  note c = created_finished[OF f assms, of pol, folded e]
  have later: "run pol (runCommandAsUser ro) (boot ro @ [CreateSettled (Inr dto)] @ evs) = run pol ?t evs"
    by (simp only: run_append append_assoc[symmetric])
  from c unsubscribed_run[OF c(4) c(2), of pol evs] returned_run[OF c(4), of pol evs]
  show ?thesis unfolding later by simp
qed

text \<open>Witness: a session that finished with exit code 0 and two buffered lines.\<close>

theorem finished_at_creation_resolves_without_subscribing_witness:
  "status \<lparr>shellId = ''s1'', name = ''ls'', status = FINISHED, exitCode = Some 0, buffer = [''a.txt'', ''b.txt '']\<rparr> = FINISHED
   \<and> resultPromise (run Leak
        (runCommandAsUser \<lparr>command = ''ls'', env = None, shellName = None, runPreCommand = False\<rparr>)
        [CreateSettled (Inr \<lparr>shellId = ''s1'', name = ''ls'', status = FINISHED, exitCode = Some 0, buffer = [''a.txt'', ''b.txt '']\<rparr>)])
      = Fulfilled (CommandResult ''a.txt\<newline>b.txt'' (Some 0))
   \<and> listening (run Leak
        (runCommandAsUser \<lparr>command = ''ls'', env = None, shellName = None, runPreCommand = False\<rparr>)
        [CreateSettled (Inr \<lparr>shellId = ''s1'', name = ''ls'', status = FINISHED, exitCode = Some 0, buffer = [''a.txt'', ''b.txt '']\<rparr>),
         ShellOut ''s1'' ''late'']) = []"
  using finished_at_creation_resolves_without_subscribing [of
      "\<lparr>shellId = ''s1'', name = ''ls'', status = FINISHED, exitCode = Some 0, buffer = [''a.txt'', ''b.txt '']\<rparr>"
      Leak "\<lparr>command = ''ls'', env = None, shellName = None, runPreCommand = False\<rparr>"
      "[ShellOut ''s1'' ''late'']"]
  by (simp add: boot_def trim_def trimStart_def isWhiteSpace_def)

text \<open>
  C4, as amended. For a pending command of the run path, \<open>kill()\<close> disposes the three
  notification subscriptions and sends a delete request for the shell, and does not settle
  the promise; since the listeners for the terminal notifications are among the disposed
  subscriptions, no event after \<open>kill()\<close> settles it: when no terminal notification
  arrived before \<open>kill()\<close>, the promise stays pending whatever arrives afterwards.
\<close>

theorem kill_strands_the_wait:
  assumes "status dto \<noteq> FINISHED"
    and "\<forall>ev\<in>set pre. quiet (shellId dto) ev"
  shows "resultPromise (run pol (runCommandAsUser ro)
           (boot ro @ [CreateSettled (Inr dto)] @ pre @ [Kill] @ post)) = Pending
       \<and> listening (run pol (runCommandAsUser ro)
           (boot ro @ [CreateSettled (Inr dto)] @ pre @ [Kill])) = []
       \<and> requests (run pol (runCommandAsUser ro)
           (boot ro @ [CreateSettled (Inr dto)] @ pre @ [Kill]))
         = requests (run pol (runCommandAsUser ro)
           (boot ro @ [CreateSettled (Inr dto)] @ pre)) @ [DeleteShell (shellId dto)]"
proof -
  let ?s = "run pol (runCommandAsUser ro) (boot ro @ [CreateSettled (Inr dto)])"
  have w: "waiting dto ?s" by (rule start_waiting(1)[OF assms(1)])
  let ?t = "run pol ?s pre"
  have wt: "waiting dto ?t" using quiet_run[OF w assms(2), of pol] by simp
  have k: "stranded (kill ?t)" and r: "requests (kill ?t) = requests ?t @ [DeleteShell (shellId dto)]"
    using kill_strands[OF wt] by simp_all
  have e1: "run pol (runCommandAsUser ro) (boot ro @ [CreateSettled (Inr dto)] @ pre @ [Kill] @ post)
        = run pol (kill ?t) post"
    by (simp only: run_append run_Cons run_Nil append_assoc[symmetric] step.simps)
  have e2: "run pol (runCommandAsUser ro) (boot ro @ [CreateSettled (Inr dto)] @ pre @ [Kill])
        = kill ?t"
    by (simp only: run_append run_Cons run_Nil append_assoc[symmetric] step.simps)
  have e3: "run pol (runCommandAsUser ro) (boot ro @ [CreateSettled (Inr dto)] @ pre) = ?t"
    by (simp only: run_append append_assoc[symmetric])
  show ?thesis
    unfolding e1 e2 e3 using stranded_run[OF k, of pol post] k r by (simp add: stranded_def)
qed

text \<open>Witness: a kill after one chunk, followed by an exit, a termination and a resumption.\<close>

theorem kill_strands_the_wait_witness:
  "quiet ''s1'' (ShellOut ''s1'' ''x'')
   \<and> resultPromise (run Leak
        (runCommandAsUser \<lparr>command = ''sleep 100'', env = None, shellName = None, runPreCommand = False\<rparr>)
        [CreateSettled (Inr \<lparr>shellId = ''s1'', name = ''sleep'', status = RUNNING, exitCode = None, buffer = []\<rparr>),
         ShellOut ''s1'' ''x'', Kill, ShellExited ''s1'' 0, ShellTerminated ''s1'', Resume])
      = Pending
   \<and> requests (run Leak
        (runCommandAsUser \<lparr>command = ''sleep 100'', env = None, shellName = None, runPreCommand = False\<rparr>)
        [CreateSettled (Inr \<lparr>shellId = ''s1'', name = ''sleep'', status = RUNNING, exitCode = None, buffer = []\<rparr>),
         ShellOut ''s1'' ''x'', Kill])
      = [CreateShell ''env  sleep 100'', DeleteShell ''s1'']"
  using kill_strands_the_wait [of
      "\<lparr>shellId = ''s1'', name = ''sleep'', status = RUNNING, exitCode = None, buffer = []\<rparr>"
      "[ShellOut ''s1'' ''x'']" Leak
      "\<lparr>command = ''sleep 100'', env = None, shellName = None, runPreCommand = False\<rparr>"
      "[ShellExited ''s1'' 0, ShellTerminated ''s1'', Resume]"]
  by (simp add: run_defs)

text \<open>
  The claim C4 as stated fails: after \<open>kill()\<close>, the exit notification of the session and
  the resumption of the body leave the promise pending.
\<close>

theorem kill_then_exit_never_settles:
  "resultPromise (run Leak
        (runCommandAsUser \<lparr>command = ''sleep 100'', env = None, shellName = None, runPreCommand = False\<rparr>)
        [CreateSettled (Inr \<lparr>shellId = ''s1'', name = ''sleep'', status = RUNNING, exitCode = None, buffer = []\<rparr>),
         Kill, ShellExited ''s1'' 0, Resume])
      = Pending"
  by (simp add: run_defs)

text \<open>
  C10. If the pre-command of a run fails with an error, the promise is rejected with that
  error and no request (so no create request) is ever sent to the remote shell client;
  for the language interpreter, an error result of \<open>writeFile\<close> rejects the promise with
  the error built from \<open>errno\<close> and \<open>error\<close>. And \<open>kill()\<close> while \<open>shell\<close> is still undefined
  disposes the store (clearing the \<open>onOutput\<close> listeners) and sends no delete request.
\<close>

theorem failed_pre_command_rejects_without_session:
  "(runPreCommand ro \<longrightarrow>
      resultPromise (run pol (runCommandAsUser ro) (PreCommandSettled (Some e) # evs)) = Rejected e
    \<and> requests (run pol (runCommandAsUser ro) (PreCommandSettled (Some e) # evs)) = [])
   \<and> resultPromise (run pol (LanguageInterpreter_run io rnd)
        (PreCommandSettled (interpreterPreCommand (Inr (WriteFileError errno err))) # evs))
      = Rejected (Error (numberToString errno @ '': '' @ err))
   \<and> requests (run pol (LanguageInterpreter_run io rnd)
        (PreCommandSettled (interpreterPreCommand (Inr (WriteFileError errno err))) # evs)) = []
   \<and> (cmdShell (run pol (runCommandAsUser ro) evs) = None \<longrightarrow>
        requests (run pol (runCommandAsUser ro) (evs @ [Kill])) = requests (run pol (runCommandAsUser ro) evs)
      \<and> storeDisposed (run pol (runCommandAsUser ro) (evs @ [Kill]))
      \<and> (\<not> storeDisposed (run pol (runCommandAsUser ro) evs) \<longrightarrow>
           onOutputListeners (run pol (runCommandAsUser ro) (evs @ [Kill])) = []))"
proof -
  have gen: "resultPromise (run pol (runCommandAsUser r) (PreCommandSettled (Some x) # evs)) = Rejected x
      \<and> requests (run pol (runCommandAsUser r) (PreCommandSettled (Some x) # evs)) = []"
    if "runPreCommand r" for r x
  proof -
    let ?s = "step pol (runCommandAsUser r) (PreCommandSettled (Some x))"
    have s: "phase ?s = Returned" "cmdShell ?s = None" "requests ?s = []" "resultPromise ?s = Rejected x"
      using that by (simp_all add: runCommandAsUser_def)
    from failed_run[OF s(1,2,3), of pol evs] s(4) show ?thesis
      by (simp add: run_Cons)
  qed
  have 1: "runPreCommand ro \<longrightarrow>
      resultPromise (run pol (runCommandAsUser ro) (PreCommandSettled (Some e) # evs)) = Rejected e
    \<and> requests (run pol (runCommandAsUser ro) (PreCommandSettled (Some e) # evs)) = []"
    using gen[of ro e] by blast
  have 2: "resultPromise (run pol (LanguageInterpreter_run io rnd)
        (PreCommandSettled (interpreterPreCommand (Inr (WriteFileError errno err))) # evs))
      = Rejected (Error (numberToString errno @ '': '' @ err))
   \<and> requests (run pol (LanguageInterpreter_run io rnd)
        (PreCommandSettled (interpreterPreCommand (Inr (WriteFileError errno err))) # evs)) = []"
    unfolding LanguageInterpreter_run_def Let_def
    using gen[of "\<lparr>command = runtime io @ '' '' @ (''/tmp/tmp.'' @ rnd @ ''.'' @ extension io),
                    env = Some (interpreterEnv io), shellName = None, runPreCommand = True\<rparr>"
                 "Error (numberToString errno @ '': '' @ err)"]
    by (simp add: interpreterPreCommand_def)
  have 3: "cmdShell (run pol (runCommandAsUser ro) evs) = None \<longrightarrow>
        requests (run pol (runCommandAsUser ro) (evs @ [Kill])) = requests (run pol (runCommandAsUser ro) evs)
      \<and> storeDisposed (run pol (runCommandAsUser ro) (evs @ [Kill]))
      \<and> (\<not> storeDisposed (run pol (runCommandAsUser ro) evs) \<longrightarrow>
           onOutputListeners (run pol (runCommandAsUser ro) (evs @ [Kill])) = [])"
    using kill_before_shell[of "run pol (runCommandAsUser ro) evs"]
    by (simp add: run_append run_Cons run_Nil)
  from 1 2 3 show ?thesis by blast
qed

text \<open>
  Witness: the interpreter's \<open>writeFile\<close> answers with errno 28; and a command with a
  pre-command and one \<open>onOutput\<close> listener is killed while the pre-command runs.
\<close>

theorem failed_pre_command_rejects_without_session_witness:
  "resultPromise (run Leak
      (LanguageInterpreter_run \<lparr>runtime = ''python'', extension = ''py'', interpreterEnv = []\<rparr> ''abc'')
      [PreCommandSettled (interpreterPreCommand (Inr (WriteFileError 28 ''ENOSPC''))), Listen 1])
    = Rejected (Error ''28: ENOSPC'')
   \<and> requests (run Leak
      (runCommandAsUser \<lparr>command = ''x'', env = None, shellName = None, runPreCommand = True\<rparr>)
      [PreCommandSettled (Some (Error ''no'')), Listen 1]) = []
   \<and> resultPromise (run Leak
      (runCommandAsUser \<lparr>command = ''x'', env = None, shellName = None, runPreCommand = True\<rparr>)
      [PreCommandSettled (Some (Error ''no'')), Listen 1]) = Rejected (Error ''no'')
   \<and> requests (run Leak
      (runCommandAsUser \<lparr>command = ''x'', env = None, shellName = None, runPreCommand = True\<rparr>)
      [Listen 1, Kill]) = []
   \<and> onOutputListeners (run Leak
      (runCommandAsUser \<lparr>command = ''x'', env = None, shellName = None, runPreCommand = True\<rparr>)
      [Listen 1, Kill]) = []"
  using failed_pre_command_rejects_without_session [of
      "\<lparr>command = ''x'', env = None, shellName = None, runPreCommand = True\<rparr>" Leak
      "Error ''no''" "[Listen 1]"
      "\<lparr>runtime = ''python'', extension = ''py'', interpreterEnv = []\<rparr>" "''abc''" 28 "''ENOSPC''"]
  by (simp add: numberToString_def run_defs)


section \<open>Emitter\<close>















section \<open>AsyncEmitter\<close>

lemma fire_run_snoc: "fire_run f (tr @ [e]) = fire_step (fire_run f tr) e"
  by (simp add: fire_run_def)

lemma fire_run_append: "fire_run f (xs @ ys) = fire_run (fire_run f xs) ys"
  by (simp add: fire_run_def)

lemma fire_run_Cons: "fire_run f (e # tr) = fire_run (fire_step f e) tr"
  by (simp add: fire_run_def)

lemma firstSettle_snoc:
  "firstSettle i (tr @ [e]) = (case firstSettle i tr of Some r \<Rightarrow> Some r | None \<Rightarrow> firstSettle i [e])"
  by (induction i tr rule: firstSettle.induct) auto

lemma allSettledThen_fields:
  "results (allSettledThen f) = results f" "invoked (allSettledThen f) = invoked f"
  by (simp_all add: allSettledThen_def)

lemma allSettledThen_race:
  "racePromise f = Pending \<Longrightarrow> racePromise (allSettledThen f) = verdict (results f)"
  by (simp add: allSettledThen_def verdict_def)

lemma fire_start:
  "results (AsyncEmitter_fire ls v) = collected (length ls) []"
  "racePromise (AsyncEmitter_fire ls v) = verdict (collected (length ls) [])"
  "invoked (AsyncEmitter_fire ls v) = map (\<lambda>l. (l, v)) ls"
  by (simp_all add: AsyncEmitter_fire_def allSettledThen_fields allSettledThen_race collected_def
      map_replicate_const)

lemma collected_snoc_settle:
  "collected n (tr @ [Settle i r]) =
     (if i < n \<and> collected n tr ! i = None then (collected n tr)[i := Some r] else collected n tr)"
  by (rule nth_equalityI)
     (auto simp: collected_def firstSettle_snoc nth_list_update split: option.splits)

lemma verdict_Pending_iff: "verdict rs = Pending \<longleftrightarrow> None \<in> set rs"
  by (simp add: verdict_def split: option.splits)

lemma no_timer_run:
  assumes "TimerElapsed \<notin> set tr"
  shows "results (fire_run (AsyncEmitter_fire ls v) tr) = collected (length ls) tr
       \<and> racePromise (fire_run (AsyncEmitter_fire ls v) tr) = verdict (collected (length ls) tr)"
  using assms
proof (induction tr rule: rev_induct)
  case Nil
  then show ?case by (simp add: fire_run_def fire_start)
next
  case (snoc e tr)
  let ?f = "fire_run (AsyncEmitter_fire ls v) tr"
  from snoc have res: "results ?f = collected (length ls) tr"
    and race: "racePromise ?f = verdict (collected (length ls) tr)" by simp_all
  from snoc.prems obtain i r where e: "e = Settle i r" by (cases e) auto
  have len: "length (collected (length ls) tr) = length ls" by (simp add: collected_def)
  show ?case
  proof (cases "i < length ls \<and> collected (length ls) tr ! i = None")
    case True
    then have "None \<in> set (collected (length ls) tr)"
      using len by (metis nth_mem)
    then have p: "racePromise ?f = Pending" by (simp add: race verdict_Pending_iff)
    let ?g = "?f\<lparr>results := (results ?f)[i := Some r]\<rparr>"
    have "racePromise ?g = Pending" using p by simp
    then have "racePromise (allSettledThen ?g) = verdict (results ?g)"
      by (rule allSettledThen_race)
    with True show ?thesis
      by (simp add: fire_run_snoc e res len collected_snoc_settle allSettledThen_fields)
  next
    case False
    then show ?thesis
      using res race len by (auto simp: fire_run_snoc e collected_snoc_settle)
  qed
qed

lemma settled_step:
  "racePromise f \<noteq> Pending \<Longrightarrow> racePromise (fire_step f e) = racePromise f"
  by (cases e) (auto simp: allSettledThen_def)

lemma settled_run:
  "racePromise f \<noteq> Pending \<Longrightarrow> racePromise (fire_run f tr) = racePromise f"
  by (induction tr arbitrary: f) (simp_all add: fire_run_def settled_step)

lemma invoked_step: "invoked (fire_step f e) = invoked f"
  by (cases e) (auto simp: allSettledThen_def)

lemma invoked_run: "invoked (fire_run f tr) = invoked f"
  by (induction tr arbitrary: f) (simp_all add: fire_run_def invoked_step)

lemma beforeTimer_all: "TimerElapsed \<notin> set tr \<Longrightarrow> beforeTimer tr = tr"
  by (auto simp: beforeTimer_def takeWhile_eq_all_conv)

lemma race_characterised:
  "racePromise (fire_run (AsyncEmitter_fire ls v) tr) =
     (if None \<notin> set (collected (length ls) (beforeTimer tr))
      then verdict (collected (length ls) (beforeTimer tr))
      else if TimerElapsed \<in> set tr then Rejected (Error ''Timeout firing async event'')
      else Pending)"
proof (cases "TimerElapsed \<in> set tr")
  case False
  with no_timer_run[OF False, of ls v] show ?thesis
    by (simp add: verdict_Pending_iff beforeTimer_all)
next
  case True
  let ?pre = "beforeTimer tr"
  have np: "TimerElapsed \<notin> set ?pre"
    unfolding beforeTimer_def by (auto dest: set_takeWhileD)
  from True obtain post where tr: "tr = ?pre @ TimerElapsed # post"
    unfolding beforeTimer_def
    by (metis (mono_tags, lifting) takeWhile_dropWhile_id dropWhile_eq_Nil_conv hd_dropWhile list.collapse)
  let ?f = "fire_run (AsyncEmitter_fire ls v) ?pre"
  have race: "racePromise ?f = verdict (collected (length ls) ?pre)"
    using no_timer_run[OF np, of ls v] by simp
  have run: "fire_run (AsyncEmitter_fire ls v) tr = fire_run (fire_step ?f TimerElapsed) post"
    by (subst tr) (simp add: fire_run_append fire_run_Cons)
  show ?thesis
  proof (cases "None \<in> set (collected (length ls) ?pre)")
    case True
    then have "racePromise ?f = Pending" by (simp add: race verdict_Pending_iff)
    then have "racePromise (fire_step ?f TimerElapsed) = Rejected (Error ''Timeout firing async event'')"
      by simp
    then have "racePromise (fire_run (fire_step ?f TimerElapsed) post)
                 = Rejected (Error ''Timeout firing async event'')"
      using settled_run[of "fire_step ?f TimerElapsed" post] by simp
    with True \<open>TimerElapsed \<in> set tr\<close> show ?thesis by (simp add: run)
  next
    case False
    then have n: "racePromise ?f \<noteq> Pending" by (simp add: race verdict_Pending_iff)
    then have "racePromise (fire_step ?f TimerElapsed) = racePromise ?f" by simp
    then have "racePromise (fire_run (fire_step ?f TimerElapsed) post) = racePromise ?f"
      using settled_run[of "fire_step ?f TimerElapsed" post] n by simp
    with False show ?thesis by (simp add: run race)
  qed
qed

lemma firstRejection_None_iff:
  "firstRejection rs = None \<longleftrightarrow> (\<forall>e. Some (rejected e) \<notin> set rs)"
  by (induction rs rule: firstRejection.induct) auto

lemma verdict_Fulfilled_iff:
  "verdict rs = Fulfilled () \<longleftrightarrow> (\<forall>r\<in>set rs. r = Some resolved)"
proof -
  have "(None \<notin> set rs \<and> (\<forall>e. Some (rejected e) \<notin> set rs)) \<longleftrightarrow> (\<forall>r\<in>set rs. r = Some resolved)"
  proof
    assume a: "None \<notin> set rs \<and> (\<forall>e. Some (rejected e) \<notin> set rs)"
    show "\<forall>r\<in>set rs. r = Some resolved"
    proof
      fix r assume "r \<in> set rs"
      with a show "r = Some resolved"
        by (cases r; cases "the r") auto
    qed
  next
    assume "\<forall>r\<in>set rs. r = Some resolved"
    then show "None \<notin> set rs \<and> (\<forall>e. Some (rejected e) \<notin> set rs)" by auto
  qed
  moreover have "firstRejection rs = None \<or> (\<exists>e. firstRejection rs = Some e)"
    by (cases "firstRejection rs") auto
  ultimately show ?thesis
    using firstRejection_None_iff[of rs] by (auto simp: verdict_def)
qed

lemma verdict_Rejected:
  assumes "None \<notin> set rs" "Some (rejected e) \<in> set rs"
  shows "\<exists>e'. verdict rs = Rejected e'"
proof (cases "firstRejection rs")
  case None
  with assms(2) firstRejection_None_iff[of rs] show ?thesis by auto
next
  case (Some e')
  with assms(1) show ?thesis by (simp add: verdict_def)
qed

lemma set_collected: "set (collected n tr) = (\<lambda>i. firstSettle i tr) ` {0..<n}"
  by (simp add: collected_def)

text \<open>
  C5. \<open>fire(v)\<close> of an AsyncEmitter calls every registered listener with \<open>v\<close>. As long as
  a listener has not settled and the timeout has not elapsed, the returned promise is
  pending, whatever the other listeners did (a rejection does not short-circuit). If the
  timeout elapses while a listener is still unsettled, the promise is rejected with the
  timeout error. If all listeners settle before the timeout and one of them rejects, the
  promise is rejected. The promise is fulfilled exactly when all listeners are fulfilled
  before the timeout elapses.
\<close>

theorem async_fire_all_settled_or_timeout:
  "invoked (fire_run (AsyncEmitter_fire ls v) tr) = map (\<lambda>l. (l, v)) ls
   \<and> ((\<exists>i<length ls. firstSettle i tr = None) \<and> TimerElapsed \<notin> set tr \<longrightarrow>
        racePromise (fire_run (AsyncEmitter_fire ls v) tr) = Pending)
   \<and> ((\<exists>i<length ls. firstSettle i (beforeTimer tr) = None) \<and> TimerElapsed \<in> set tr \<longrightarrow>
        racePromise (fire_run (AsyncEmitter_fire ls v) tr)
          = Rejected (Error ''Timeout firing async event''))
   \<and> ((\<forall>i<length ls. firstSettle i (beforeTimer tr) \<noteq> None) \<and>
       (\<exists>i<length ls. firstSettle i (beforeTimer tr) = Some (rejected e)) \<longrightarrow>
        (\<exists>e'. racePromise (fire_run (AsyncEmitter_fire ls v) tr) = Rejected e'))
   \<and> (racePromise (fire_run (AsyncEmitter_fire ls v) tr) = Fulfilled () \<longleftrightarrow>
        (\<forall>i<length ls. firstSettle i (beforeTimer tr) = Some resolved))"
proof -
  let ?f = "fire_run (AsyncEmitter_fire ls v) tr"
  let ?rs = "collected (length ls) (beforeTimer tr)"
  note ch = race_characterised[of ls v tr]
  have none: "None \<in> set ?rs \<longleftrightarrow> (\<exists>i<length ls. firstSettle i (beforeTimer tr) = None)"
    by (force simp: set_collected image_iff)
  have 1: "invoked ?f = map (\<lambda>l. (l, v)) ls"
    by (simp add: invoked_run fire_start)
  have 2: "racePromise ?f = Pending"
    if "\<exists>i<length ls. firstSettle i tr = None" "TimerElapsed \<notin> set tr"
    using that ch none by (simp add: beforeTimer_all)
  have 3: "racePromise ?f = Rejected (Error ''Timeout firing async event'')"
    if "\<exists>i<length ls. firstSettle i (beforeTimer tr) = None" "TimerElapsed \<in> set tr"
    using that ch none by simp
  have 4: "\<exists>e'. racePromise ?f = Rejected e'"
    if a: "\<forall>i<length ls. firstSettle i (beforeTimer tr) \<noteq> None"
      and b: "\<exists>i<length ls. firstSettle i (beforeTimer tr) = Some (rejected e)"
  proof -
    from a none have n: "None \<notin> set ?rs" by simp
    from b have "Some (rejected e) \<in> set ?rs" by (force simp: set_collected image_iff)
    from verdict_Rejected[OF n this] ch n show ?thesis by simp
  qed
  have 5: "racePromise ?f = Fulfilled () \<longleftrightarrow> (\<forall>i<length ls. firstSettle i (beforeTimer tr) = Some resolved)"
  proof (cases "None \<in> set ?rs")
    case True
    with ch have "racePromise ?f \<noteq> Fulfilled ()" by (simp split: if_splits)
    moreover from True none have "\<not> (\<forall>i<length ls. firstSettle i (beforeTimer tr) = Some resolved)"
      by auto
    ultimately show ?thesis by simp
  next
    case False
    with ch have "racePromise ?f = verdict ?rs" by simp
    then show ?thesis
      by (auto simp: verdict_Fulfilled_iff set_collected)
  qed
  from 1 2 3 4 5 show ?thesis by blast
qed

text \<open>
  Witness: listeners 7 and 9; the second rejects first. The promise is pending until
  the first has settled too, is rejected with the timeout error when the timeout comes
  before that, and is fulfilled when both are fulfilled in time.
\<close>

theorem async_fire_all_settled_or_timeout_witness:
  "invoked (fire_run (AsyncEmitter_fire [7, 9] ''v'') [Settle 1 (rejected (Error ''boom''))])
     = [(7, ''v''), (9, ''v'')]
   \<and> racePromise (fire_run (AsyncEmitter_fire [7, 9] ''v'') [Settle 1 (rejected (Error ''boom''))])
     = Pending
   \<and> racePromise (fire_run (AsyncEmitter_fire [7, 9] ''v'')
        [Settle 1 (rejected (Error ''boom'')), TimerElapsed, Settle 0 resolved])
     = Rejected (Error ''Timeout firing async event'')
   \<and> racePromise (fire_run (AsyncEmitter_fire [7, 9] ''v'')
        [Settle 1 (rejected (Error ''boom'')), Settle 0 resolved, TimerElapsed])
     = Rejected (Error ''boom'')
   \<and> racePromise (fire_run (AsyncEmitter_fire [7, 9] ''v'')
        [Settle 1 resolved, Settle 0 resolved, TimerElapsed])
     = Fulfilled ()"
proof -
  have a: "\<exists>i<length [7, 9 :: nat]. firstSettle i [Settle 1 (rejected (Error ''boom''))] = None"
    by (rule exI[of _ 0]) simp
  have b: "\<exists>i<length [7, 9 :: nat]. firstSettle i
             (beforeTimer [Settle 1 (rejected (Error ''boom'')), TimerElapsed, Settle 0 resolved]) = None"
    by (rule exI[of _ 0]) (simp add: beforeTimer_def)
  have c: "\<forall>i<length [7, 9 :: nat]. firstSettle i
             (beforeTimer [Settle 1 resolved, Settle 0 resolved, TimerElapsed]) = Some resolved"
    by (simp add: beforeTimer_def less_Suc_eq)
  from a b c
    async_fire_all_settled_or_timeout [of "[7, 9]" "''v''" "[Settle 1 (rejected (Error ''boom''))]"]
    async_fire_all_settled_or_timeout [of "[7, 9]" "''v''"
      "[Settle 1 (rejected (Error ''boom'')), TimerElapsed, Settle 0 resolved]"]
    async_fire_all_settled_or_timeout [of "[7, 9]" "''v''"
      "[Settle 1 resolved, Settle 0 resolved, TimerElapsed]"]
  show ?thesis
    by (simp add: fire_run_def AsyncEmitter_fire_def allSettledThen_def)
qed

section \<open>Ports\<close>

lemma Set_of_acc:
  "set (foldl (\<lambda>s x. Set_add x s) acc xs) = set acc \<union> set xs"
  "distinct acc \<Longrightarrow> distinct (foldl (\<lambda>s x. Set_add x s) acc xs)"
  by (induction xs arbitrary: acc) (auto simp: Set_add_def)

lemma set_Set_of: "set (Set_of xs) = set xs"
  by (simp add: Set_of_def Set_of_acc)

lemma distinct_Set_of: "distinct (Set_of xs)"
  by (simp add: Set_of_def Set_of_acc)

lemma count_distinct:
  assumes "distinct xs"
  shows "length (filter (\<lambda>x. x = n \<and> P x) xs) = (if n \<in> set xs \<and> P n then 1 else 0)"
  using assms by (induction xs) auto

lemma count_distinct_map:
  assumes "distinct (map f xs)"
  shows "length (filter (\<lambda>x. f x = n \<and> P (f x)) xs) = (if n \<in> f ` set xs \<and> P n then 1 else 0)"
proof -
  have "length (filter (\<lambda>x. f x = n \<and> P (f x)) xs) = length (filter (\<lambda>y. y = n \<and> P y) (map f xs))"
    by (simp add: filter_map comp_def)
  also have "\<dots> = (if n \<in> set (map f xs) \<and> P n then 1 else 0)"
    by (rule count_distinct[OF assms])
  finally show ?thesis by simp
qed

lemma opensFor_fired:
  "opensFor n (map DidPortOpen os @ map DidPortClose cs) = length (filter (\<lambda>i. info_port i = n) os)"
  by (simp add: opensFor_def filter_map comp_def)

lemma closesFor_fired:
  "closesFor n (map DidPortOpen os @ map DidPortClose cs) = length (filter (\<lambda>m. m = n) cs)"
  by (simp add: closesFor_def filter_map comp_def)

text \<open>
  A batch that lists every port number at most once, with the previous set \<open>S\<close>
  (\<open>lastOpenedPorts\<close>) and the port numbers \<open>S'\<close> of the batch: exactly one open event
  fires for each port in \<open>S' - S\<close> (none for any other port), carrying the port's number
  and url, exactly one close event fires for each port in \<open>S - S'\<close> (none for any other),
  and the stored set afterwards is \<open>S'\<close>.
\<close>

lemma ports_delta_without_duplicates:
  assumes "distinct (map port ports)" and "distinct lastOpenedPorts"
  shows "opensFor n (fst (onPortsUpdated lastOpenedPorts ports))
           = (if n \<in> port ` set ports \<and> n \<notin> set lastOpenedPorts then 1 else 0)
       \<and> closesFor n (fst (onPortsUpdated lastOpenedPorts ports))
           = (if n \<in> set lastOpenedPorts \<and> n \<notin> port ` set ports then 1 else 0)
       \<and> (DidPortOpen (PortInfo n h) \<in> set (fst (onPortsUpdated lastOpenedPorts ports))
           \<longleftrightarrow> (\<exists>p\<in>set ports. port p = n \<and> url p = h) \<and> n \<notin> set lastOpenedPorts)
       \<and> set (snd (onPortsUpdated lastOpenedPorts ports)) = port ` set ports
       \<and> distinct (snd (onPortsUpdated lastOpenedPorts ports))"
proof -
  have f: "fst (onPortsUpdated lastOpenedPorts ports)
        = map DidPortOpen (map (\<lambda>p. PortInfo (port p) (url p))
                            (filter (\<lambda>p. port p \<notin> set lastOpenedPorts) ports))
          @ map DidPortClose (filter (\<lambda>n. \<not> list_ex (\<lambda>p. port p = n) ports) lastOpenedPorts)"
    by (simp only: onPortsUpdated_def Let_def fst_conv)
  have o: "opensFor n (fst (onPortsUpdated lastOpenedPorts ports))
           = (if n \<in> port ` set ports \<and> n \<notin> set lastOpenedPorts then 1 else 0)"
  proof -
    have "opensFor n (fst (onPortsUpdated lastOpenedPorts ports))
        = length (filter (\<lambda>p. port p = n \<and> port p \<notin> set lastOpenedPorts) ports)"
      unfolding f opensFor_fired
      by (simp add: filter_map comp_def conj_commute)
    also note count_distinct_map[OF assms(1), of n "\<lambda>m. m \<notin> set lastOpenedPorts"]
    finally show ?thesis .
  qed
  have c: "closesFor n (fst (onPortsUpdated lastOpenedPorts ports))
           = (if n \<in> set lastOpenedPorts \<and> n \<notin> port ` set ports then 1 else 0)"
  proof -
    have "closesFor n (fst (onPortsUpdated lastOpenedPorts ports))
        = length (filter (\<lambda>m. m = n \<and> m \<notin> port ` set ports) lastOpenedPorts)"
      unfolding f closesFor_fired filter_filter
      by (rule arg_cong[where f=length], rule filter_cong) (auto simp: list_ex_iff)
    also note count_distinct[OF assms(2), of n "\<lambda>m. m \<notin> port ` set ports"]
    finally show ?thesis .
  qed
  have i: "DidPortOpen (PortInfo n h) \<in> set (fst (onPortsUpdated lastOpenedPorts ports))
           \<longleftrightarrow> (\<exists>p\<in>set ports. port p = n \<and> url p = h) \<and> n \<notin> set lastOpenedPorts"
    by (auto simp: onPortsUpdated_def Let_def)
  have s: "set (snd (onPortsUpdated lastOpenedPorts ports)) = port ` set ports"
    by (simp add: onPortsUpdated_def Let_def set_Set_of)
  have d: "distinct (snd (onPortsUpdated lastOpenedPorts ports))"
    by (simp add: onPortsUpdated_def Let_def distinct_Set_of)
  from o c i s d show ?thesis by blast
qed

text \<open>
  The previous set 3000, 8080 and the batch 8080, 9090: one open event for 9090, one
  close event for 3000, none for 8080, and the new set is 8080, 9090.
\<close>

lemma ports_delta_example:
  "onPortsUpdated [3000, 8080] [\<lparr>port = 8080, url = ''a.csb.app''\<rparr>, \<lparr>port = 9090, url = ''b.csb.app''\<rparr>]
     = ([DidPortOpen (PortInfo 9090 ''b.csb.app''), DidPortClose 3000], [8080, 9090])"
  by (simp add: onPortsUpdated_def Set_of_def Set_add_def)

text \<open>
  C8. For every ports-updated batch, exactly one open event is to fire for each port of
  the batch that is not in the previous set. The listener fires one open event for each
  entry of the batch whose port is new, while the close events and the stored set go
  through a \<open>Set\<close> and count each port once: for the previous set 3000 and a batch that
  lists the new port 9090 twice, two open events fire for port 9090 (and one close event
  for 3000, and the set 9090 is stored), so the count of the claim is broken.
\<close>

theorem ports_duplicate_entry_opens_twice:
  "onPortsUpdated [3000] [\<lparr>port = 9090, url = ''a.csb.app''\<rparr>, \<lparr>port = 9090, url = ''b.csb.app''\<rparr>]
     = ([DidPortOpen (PortInfo 9090 ''a.csb.app''), DidPortOpen (PortInfo 9090 ''b.csb.app''),
         DidPortClose 3000], [9090])
   \<and> opensFor 9090 (fst (onPortsUpdated [3000]
        [\<lparr>port = 9090, url = ''a.csb.app''\<rparr>, \<lparr>port = 9090, url = ''b.csb.app''\<rparr>])) = 2
   \<and> closesFor 3000 (fst (onPortsUpdated [3000]
        [\<lparr>port = 9090, url = ''a.csb.app''\<rparr>, \<lparr>port = 9090, url = ''b.csb.app''\<rparr>])) = 1"
  by (simp add: onPortsUpdated_def Set_of_def Set_add_def opensFor_def closesFor_def)

end
